theory Spec2Isabelle
  imports Complex_Main "HOL-Library.Word"
begin

unbundle bit_operations_syntax

section \<open>Python values and exceptions\<close>

text \<open>
  The program is \<^verbatim>\<open>upload_neocities.py\<close>. Python integers are unbounded and are
  modelled as \<^typ>\<open>int\<close>; byte strings are lists of 8-bit words; text is \<^typ>\<open>string\<close>.
  Every exception the modelled code can raise is a value of \<open>py_exception\<close>, and a
  computation that may raise returns \<open>py_exception + 'a\<close> (\<open>Inl\<close> is the raise).
\<close>

type_synonym byte = "8 word"

text \<open>
  A file of the remote listing, as the code reads it: \<^verbatim>\<open>f["path"]\<close>,
  \<^verbatim>\<open>f["is_directory"]\<close>, \<^verbatim>\<open>f["size"]\<close>, \<^verbatim>\<open>f["sha1_hash"]\<close>.
  The last two are read for entries that are not directories only.
\<close>

record remote_file =
  path :: string
  is_directory :: bool
  size_field :: int
  sha1_hash :: string

text \<open>
  The raw listing \<^verbatim>\<open>raw\<close>: a dictionary whose keys \<^verbatim>\<open>"result"\<close>, \<^verbatim>\<open>"files"\<close> and
  \<^verbatim>\<open>"message"\<close> may each be absent (\<open>None\<close>).
\<close>

record raw_listing =
  result :: "string option"
  files :: "remote_file list option"
  message :: "string option"

text \<open>
  What \<^verbatim>\<open>sys.exit(f"... API error: {raw.get('message', raw)}")\<close> carries: the value of
  the key \<^verbatim>\<open>"message"\<close>, or the whole dictionary when the key is absent.
\<close>

datatype exit_payload = Message string | Whole_Listing raw_listing

datatype py_exception =
    ValueError
  | OSError
  | AttributeError
  | HTTPError "int option"  \<comment> \<open>\<^verbatim>\<open>requests.HTTPError\<close>; the status of \<^verbatim>\<open>e.response\<close>, \<open>None\<close> when there is no response\<close>
  | OtherError string       \<comment> \<open>an exception of any other class, by its name\<close>
  | SystemExit exit_payload \<comment> \<open>\<^verbatim>\<open>sys.exit("... API error: ...")\<close>\<close>

section \<open>The batcher: \<^verbatim>\<open>chunked\<close>\<close>

text \<open>
  \<^verbatim>\<open>range(start, stop, step)\<close> for a step that is not zero: counting up while below
  \<open>stop\<close> for a positive step, counting down while above \<open>stop\<close> for a negative one.
\<close>

function py_range_from :: "int \<Rightarrow> int \<Rightarrow> int \<Rightarrow> int list" where
  "py_range_from i stop step =
     (if 0 < step \<and> i < stop then i # py_range_from (i + step) stop step
      else if step < 0 \<and> stop < i then i # py_range_from (i + step) stop step
      else [])"
  by pat_completeness auto
termination
  by (relation "measure (\<lambda>(i, stop, step). nat (if 0 < step then stop - i else i - stop))") auto

declare py_range_from.simps [simp del]

text \<open>\<^verbatim>\<open>range\<close> raises \<^verbatim>\<open>ValueError\<close> when the step is zero.\<close>

definition py_range :: "int \<Rightarrow> int \<Rightarrow> int \<Rightarrow> py_exception + int list" where
  "py_range start stop step =
     (if step = 0 then Inl ValueError else Inr (py_range_from start stop step))"

text \<open>
  A slice \<^verbatim>\<open>seq[lo:hi]\<close>: a negative bound counts from the end, and both bounds are
  clamped to the list.
\<close>

definition slice_index :: "nat \<Rightarrow> int \<Rightarrow> nat" where
  "slice_index len x = (if x < 0 then nat (max 0 (int len + x)) else min (nat x) len)"

definition py_slice :: "'a list \<Rightarrow> int \<Rightarrow> int \<Rightarrow> 'a list" where
  "py_slice seq lo hi =
     (let l = slice_index (length seq) lo; h = slice_index (length seq) hi
      in take (h - l) (drop l seq))"

text \<open>
  \<^verbatim>\<open>
  def chunked(seq, n):
      for i in range(0, len(seq), n):
          yield seq[i : i + n]
  \<close>
  The generator is consumed to its end by the \<^verbatim>\<open>for\<close> loop of \<^verbatim>\<open>main\<close>; the model
  returns the list of everything it yields, or the exception that \<^verbatim>\<open>range\<close> raises.
\<close>

definition chunked :: "'a list \<Rightarrow> int \<Rightarrow> py_exception + 'a list list" where
  "chunked seq n =
     (case py_range 0 (int (length seq)) n of
        Inl e \<Rightarrow> Inl e
      | Inr starts \<Rightarrow> Inr (map (\<lambda>i. py_slice seq i (i + n)) starts))"

section \<open>The content hasher: \<^verbatim>\<open>sha1_file\<close>\<close>

subsection \<open>SHA-1 (FIPS 180-4), the algorithm behind \<^verbatim>\<open>hashlib.sha1\<close>\<close>

definition sha1_pad :: "byte list \<Rightarrow> byte list" where
  "sha1_pad m =
     m @ [0x80] @ replicate ((119 - length m mod 64) mod 64) 0
       @ map (\<lambda>i. ucast (drop_bit (8 * (7 - i)) (word_of_nat (8 * length m) :: 64 word)))
           [0 ..< 8]"

definition be32 :: "byte list \<Rightarrow> 32 word" where
  "be32 bs = foldl (\<lambda>acc b. push_bit 8 acc OR ucast b) 0 (take 4 bs)"

fun words_of_block :: "nat \<Rightarrow> byte list \<Rightarrow> 32 word list" where
  "words_of_block 0 bs = []"
| "words_of_block (Suc k) bs = be32 bs # words_of_block k (drop 4 bs)"

fun schedule :: "nat \<Rightarrow> 32 word list \<Rightarrow> 32 word list" where
  "schedule 0 w = w"
| "schedule (Suc k) w =
     schedule k
       (w @ [word_rotl 1 (w ! (length w - 3) XOR w ! (length w - 8)
                           XOR w ! (length w - 14) XOR w ! (length w - 16))])"

type_synonym sha1_state = "32 word \<times> 32 word \<times> 32 word \<times> 32 word \<times> 32 word"

definition sha1_f :: "nat \<Rightarrow> 32 word \<Rightarrow> 32 word \<Rightarrow> 32 word \<Rightarrow> 32 word" where
  "sha1_f t b c d =
     (if t < 20 then (b AND c) OR (NOT b AND d)
      else if t < 40 then b XOR c XOR d
      else if t < 60 then (b AND c) OR (b AND d) OR (c AND d)
      else b XOR c XOR d)"

definition sha1_k :: "nat \<Rightarrow> 32 word" where
  "sha1_k t =
     (if t < 20 then 0x5A827999 else if t < 40 then 0x6ED9EBA1
      else if t < 60 then 0x8F1BBCDC else 0xCA62C1D6)"

definition sha1_round :: "32 word list \<Rightarrow> sha1_state \<Rightarrow> nat \<Rightarrow> sha1_state" where
  "sha1_round w s t =
     (case s of (a, b, c, d, e) \<Rightarrow>
        (word_rotl 5 a + sha1_f t b c d + e + sha1_k t + w ! t, a, word_rotl 30 b, c, d))"

definition sha1_block :: "sha1_state \<Rightarrow> byte list \<Rightarrow> sha1_state" where
  "sha1_block h block =
     (case h of (h0, h1, h2, h3, h4) \<Rightarrow>
        (case foldl (sha1_round (schedule 64 (words_of_block 16 block))) h [0 ..< 80] of
           (a, b, c, d, e) \<Rightarrow> (h0 + a, h1 + b, h2 + c, h3 + d, h4 + e)))"

function sha1_blocks :: "sha1_state \<Rightarrow> byte list \<Rightarrow> sha1_state" where
  "sha1_blocks h bs =
     (if bs = [] then h else sha1_blocks (sha1_block h (take 64 bs)) (drop 64 bs))"
  by pat_completeness auto
termination
  by (relation "measure (\<lambda>(h, bs). length bs)") auto

declare sha1_blocks.simps [simp del]

definition bytes_of_word32 :: "32 word \<Rightarrow> byte list" where
  "bytes_of_word32 w = map (\<lambda>i. ucast (drop_bit (8 * (3 - i)) w)) [0 ..< 4]"

definition sha1 :: "byte list \<Rightarrow> byte list" where
  "sha1 m =
     (case sha1_blocks (0x67452301, 0xEFCDAB89, 0x98BADCFE, 0x10325476, 0xC3D2E1F0) (sha1_pad m)
      of (h0, h1, h2, h3, h4) \<Rightarrow> concat (map bytes_of_word32 [h0, h1, h2, h3, h4]))"

definition hex_digit :: "nat \<Rightarrow> char" where
  "hex_digit n = ''0123456789abcdef'' ! (n mod 16)"

definition hex_of_bytes :: "byte list \<Rightarrow> string" where
  "hex_of_bytes bs = concat (map (\<lambda>b. [hex_digit (unat b div 16), hex_digit (unat b)]) bs)"

subsection \<open>The hash object of \<^verbatim>\<open>hashlib\<close>\<close>

text \<open>
  A hash object is modelled by the bytes fed to it so far: \<^verbatim>\<open>h.update(a); h.update(b)\<close>
  is \<^verbatim>\<open>h.update(a + b)\<close>, and \<^verbatim>\<open>h.hexdigest()\<close> is the digest of everything fed,
  in lower-case hexadecimal.
\<close>

type_synonym hash_object = "byte list"

definition hashlib_sha1 :: hash_object where
  "hashlib_sha1 = []"

definition hash_update :: "hash_object \<Rightarrow> byte list \<Rightarrow> hash_object" where
  "hash_update h chunk = h @ chunk"

definition hexdigest :: "hash_object \<Rightarrow> string" where
  "hexdigest h = hex_of_bytes (sha1 h)"

subsection \<open>Reading a file\<close>

text \<open>
  An open binary file is modelled by the bytes from its position to its end.
  \<^verbatim>\<open>fh.read(n)\<close> returns at most \<open>n\<close> bytes and advances, returns everything left when
  \<open>n\<close> is negative, and \<^verbatim>\<open>b""\<close> at the end of the file.
\<close>

type_synonym file_handle = "byte list"

definition fh_read :: "file_handle \<Rightarrow> int \<Rightarrow> byte list \<times> file_handle" where
  "fh_read fh n = (if n < 0 then (fh, []) else (take (nat n) fh, drop (nat n) fh))"

text \<open>
  \<^verbatim>\<open>
  h = hashlib.sha1()
  for chunk in iter(lambda: fh.read(buf), b""):
      h.update(chunk)
  \<close>
  The two-argument \<^verbatim>\<open>iter\<close> calls \<^verbatim>\<open>fh.read(buf)\<close> until it returns \<^verbatim>\<open>b""\<close>.
\<close>

function read_loop :: "hash_object \<Rightarrow> file_handle \<Rightarrow> int \<Rightarrow> hash_object" where
  "read_loop h fh buf =
     (if fst (fh_read fh buf) = [] then h
      else read_loop (hash_update h (fst (fh_read fh buf))) (snd (fh_read fh buf)) buf)"
  by pat_completeness auto
termination
  by (relation "measure (\<lambda>(h, fh, buf). length fh)") (auto simp: fh_read_def split: if_splits)

declare read_loop.simps [simp del]

text \<open>
  \<^verbatim>\<open>hashlib.file_digest(fh, "sha1")\<close> of the standard library (Python 3.11 and later), for
  a file opened in binary mode: it fills a buffer of \<open>2 ^ 18\<close> bytes with
  \<^verbatim>\<open>fh.readinto(buf)\<close> and feeds the \<open>size\<close> bytes read to the hash object, until
  \<open>size\<close> is 0.
\<close>

function file_digest_loop :: "hash_object \<Rightarrow> file_handle \<Rightarrow> hash_object" where
  "file_digest_loop h fh =
     (if take (2 ^ 18) fh = [] then h
      else file_digest_loop (hash_update h (take (2 ^ 18) fh)) (drop (2 ^ 18) fh))"
  by pat_completeness auto
termination
  by (relation "measure (\<lambda>(h, fh). length fh)") auto

declare file_digest_loop.simps [simp del]

definition file_digest :: "file_handle \<Rightarrow> hash_object" where
  "file_digest fh = file_digest_loop hashlib_sha1 fh"

subsection \<open>The local file system\<close>

text \<open>
  A local file, by its absolute path: the size that \<^verbatim>\<open>p.stat().st_size\<close> reports and
  the bytes that reading it gives (\<open>None\<close> when it cannot be opened for reading).
  A path with no file raises \<^verbatim>\<open>OSError\<close> on \<^verbatim>\<open>stat\<close> and on \<^verbatim>\<open>open\<close>.
\<close>

record file_node =
  st_size :: int
  content :: "byte list option"

type_synonym file_system = "string \<Rightarrow> file_node option"

definition open_rb :: "file_system \<Rightarrow> string \<Rightarrow> py_exception + file_handle" where
  "open_rb fs p =
     (case fs p of
        None \<Rightarrow> Inl OSError
      | Some node \<Rightarrow> (case content node of None \<Rightarrow> Inl OSError | Some bs \<Rightarrow> Inr bs))"

definition stat_size :: "file_system \<Rightarrow> string \<Rightarrow> py_exception + int" where
  "stat_size fs p = (case fs p of None \<Rightarrow> Inl OSError | Some node \<Rightarrow> Inr (st_size node))"

text \<open>
  \<^verbatim>\<open>
  def sha1_file(p, buf=128 * 1024):
      if hasattr(hashlib, "file_digest"):
          with p.open("rb") as fh:
              return hashlib.file_digest(fh, "sha1").hexdigest()
      h = hashlib.sha1()
      with p.open("rb") as fh:
          for chunk in iter(lambda: fh.read(buf), b""):
              h.update(chunk)
      return h.hexdigest()
  \<close>
  \<open>has_file_digest\<close> is \<^verbatim>\<open>hasattr(hashlib, "file_digest")\<close>, a fact of the interpreter.
\<close>

definition sha1_file :: "bool \<Rightarrow> file_system \<Rightarrow> string \<Rightarrow> int \<Rightarrow> py_exception + string" where
  "sha1_file has_file_digest fs p buf =
     (if has_file_digest then
        (case open_rb fs p of
           Inl e \<Rightarrow> Inl e
         | Inr fh \<Rightarrow> Inr (hexdigest (file_digest fh)))
      else
        (case open_rb fs p of
           Inl e \<Rightarrow> Inl e
         | Inr fh \<Rightarrow> Inr (hexdigest (read_loop hashlib_sha1 fh buf))))"

definition default_buf :: int where
  "default_buf = 128 * 1024"

section \<open>The resilient invoker: \<^verbatim>\<open>retry_on_rate_limit\<close>\<close>

text \<open>
  What a run does to the outside is kept in \<open>world\<close>: how many times a wrapped operation
  was invoked, the arguments of every \<^verbatim>\<open>time.sleep\<close> in order, and the
  (status, delay) of every warning printed.
\<close>

record world =
  calls :: nat
  slept :: "int list"
  printed :: "(int \<times> int) list"

text \<open>
  \<^verbatim>\<open>
  def retry_on_rate_limit(fn, *a, **kw):
      delay = 60
      while True:
          try:
              return fn(*a, **kw)
          except requests.HTTPError as e:
              if e.response.status_code in (429, 500, 502, 503, 504):
                  print(...)
                  time.sleep(delay)
                  delay = min(delay * 2, 600)
              else:
                  raise
  \<close>
  The wrapped operation talks to the network, so each invocation has its own outcome:
  \<open>fn k\<close> is what the \<open>k\<close>-th invocation within this call does, a returned value
  (\<open>Inr\<close>) or a raised exception (\<open>Inl\<close>). The loop has no bound, so it is a partial
  function: \<open>None\<close> is a call that never returns.
\<close>

partial_function (option) retry_loop ::
  "(nat \<Rightarrow> py_exception + 'a) \<Rightarrow> nat \<Rightarrow> int \<Rightarrow> world \<Rightarrow> ((py_exception + 'a) \<times> world) option"
where
  "retry_loop fn attempt delay w =
     (case fn attempt of
        Inr v \<Rightarrow> Some (Inr v, w\<lparr>calls := calls w + 1\<rparr>)
      | Inl e \<Rightarrow>
          (case e of
             HTTPError response \<Rightarrow>
               (case response of
                  None \<Rightarrow> Some (Inl AttributeError, w\<lparr>calls := calls w + 1\<rparr>)
                | Some status_code \<Rightarrow>
                    if status_code \<in> set [429, 500, 502, 503, 504] then
                      retry_loop fn (attempt + 1) (min (delay * 2) 600)
                        (w\<lparr>calls := calls w + 1,
                           printed := printed w @ [(status_code, delay)],
                           slept := slept w @ [delay]\<rparr>)
                    else Some (Inl e, w\<lparr>calls := calls w + 1\<rparr>))
           | _ \<Rightarrow> Some (Inl e, w\<lparr>calls := calls w + 1\<rparr>)))"

declare retry_loop.simps [code]

definition retry_on_rate_limit ::
  "(nat \<Rightarrow> py_exception + 'a) \<Rightarrow> world \<Rightarrow> ((py_exception + 'a) \<times> world) option" where
  "retry_on_rate_limit fn w = retry_loop fn 0 60 w"

text \<open>
  The failures the loop retries: an \<^verbatim>\<open>HTTPError\<close> whose response has one of the five
  statuses. \<open>status_of\<close> reads the status of such an outcome.
\<close>

definition transient :: "py_exception + 'a \<Rightarrow> bool" where
  "transient r =
     (case r of
        Inl (HTTPError (Some status_code)) \<Rightarrow> status_code \<in> set [429, 500, 502, 503, 504]
      | _ \<Rightarrow> False)"

definition status_of :: "py_exception + 'a \<Rightarrow> int" where
  "status_of r = (case r of Inl (HTTPError (Some status_code)) \<Rightarrow> status_code | _ \<Rightarrow> 0)"

text \<open>The value of \<^verbatim>\<open>delay\<close> after \<open>i\<close> passes through the retrying branch, from \<open>d\<close>.\<close>

definition delay_after :: "nat \<Rightarrow> int \<Rightarrow> int" where
  "delay_after i d = ((\<lambda>delay. min (delay * 2) 600) ^^ i) d"

text \<open>The schedule in closed form: 60 doubled \<open>i\<close> times, capped at 600.\<close>

definition backoff :: "nat \<Rightarrow> int" where
  "backoff i = min (60 * 2 ^ i) 600"

text \<open>
  What the caller of \<^verbatim>\<open>retry_on_rate_limit\<close> gets when an invocation's outcome ends the
  loop: the value, or the exception re-raised; an \<^verbatim>\<open>HTTPError\<close> without a response
  fails on \<^verbatim>\<open>e.response.status_code\<close> with \<^verbatim>\<open>AttributeError\<close>.
\<close>

definition final_outcome :: "py_exception + 'a \<Rightarrow> py_exception + 'a" where
  "final_outcome r = (case r of Inl (HTTPError None) \<Rightarrow> Inl AttributeError | _ \<Rightarrow> r)"

text \<open>
  The batch upload of \<^verbatim>\<open>main\<close>:
  \<^verbatim>\<open>
  for chunk in chunked(to_send, batch_sz):
      retry_on_rate_limit(lambda: nc.upload(*chunk))
      sent += len(chunk)
  \<close>
  \<open>upload i chunk k\<close> is the outcome of the \<open>k\<close>-th invocation of
  \<^verbatim>\<open>nc.upload(*chunk)\<close> for the \<open>i\<close>-th batch.
\<close>

fun upload_loop ::
  "(nat \<Rightarrow> 'c list \<Rightarrow> nat \<Rightarrow> py_exception + 'a) \<Rightarrow> nat \<Rightarrow> 'c list list \<Rightarrow> nat \<Rightarrow> world
     \<Rightarrow> ((py_exception + nat) \<times> world) option" where
  "upload_loop upload i [] sent w = Some (Inr sent, w)"
| "upload_loop upload i (chunk # rest) sent w =
     (case retry_on_rate_limit (upload i chunk) w of
        None \<Rightarrow> None
      | Some (Inl e, w') \<Rightarrow> Some (Inl e, w')
      | Some (Inr v, w') \<Rightarrow> upload_loop upload (i + 1) rest (sent + length chunk) w')"

section \<open>The remote index\<close>

text \<open>
  \<^verbatim>\<open>
  remote_index = {f["path"]: (f["size"], f["sha1_hash"])
                  for f in raw["files"] if not f["is_directory"]}
  \<close>
  A dictionary comprehension inserts in order, a later entry replacing an earlier one
  under the same key.
\<close>

type_synonym remote_index = "string \<Rightarrow> (int \<times> string) option"

definition remote_index_of :: "remote_file list \<Rightarrow> remote_index" where
  "remote_index_of fs =
     foldl (\<lambda>m f. if \<not> is_directory f then m(path f \<mapsto> (size_field f, sha1_hash f)) else m)
       Map.empty fs"

text \<open>
  \<^verbatim>\<open>
  if raw.get("result") != "success" or "files" not in raw:
      sys.exit(f"... API error: {raw.get('message', raw)}")
  remote_index = ...
  \<close>
\<close>

definition pull_remote_index :: "raw_listing \<Rightarrow> py_exception + remote_index" where
  "pull_remote_index raw =
     (case files raw of
        None \<Rightarrow>
          Inl (SystemExit (case message raw of Some m \<Rightarrow> Message m | None \<Rightarrow> Whole_Listing raw))
      | Some fs \<Rightarrow>
          if result raw \<noteq> Some ''success'' then
            Inl (SystemExit (case message raw of Some m \<Rightarrow> Message m | None \<Rightarrow> Whole_Listing raw))
          else Inr (remote_index_of fs))"

section \<open>The diff engine\<close>

text \<open>A local file found by the scan: \<^verbatim>\<open>p.as_posix()\<close> and its path relative to the root.\<close>

record local_path =
  abs_path :: string
  rel_path :: string

text \<open>\<^verbatim>\<open>remote_index.get(rel, (None, None))\<close>\<close>

definition index_get :: "remote_index \<Rightarrow> string \<Rightarrow> int option \<times> string option" where
  "index_get idx rel =
     (case idx rel of None \<Rightarrow> (None, None) | Some (s, h) \<Rightarrow> (Some s, Some h))"

text \<open>
  \<^verbatim>\<open>
  to_send = []
  for p in local:
      rel = p.relative_to(root).as_posix()
      abs = p.as_posix()
      size = p.stat().st_size
      r_size, r_sha = remote_index.get(rel, (None, None))
      if size != r_size or sha1_file(p) != r_sha:
          to_send.append((abs, rel))
  \<close>
  Python's \<^verbatim>\<open>or\<close> evaluates its right operand only when the left one is false. Besides
  \<open>to_send\<close> the model keeps \<open>hashed\<close>, the paths \<^verbatim>\<open>sha1_file\<close> was called on, in order.
\<close>

fun to_send_loop ::
  "bool \<Rightarrow> file_system \<Rightarrow> remote_index \<Rightarrow> local_path list
     \<Rightarrow> (string \<times> string) list \<Rightarrow> string list
     \<Rightarrow> py_exception + ((string \<times> string) list \<times> string list)" where
  "to_send_loop has_file_digest fs idx [] to_send hashed = Inr (to_send, hashed)"
| "to_send_loop has_file_digest fs idx (p # ps) to_send hashed =
     (case stat_size fs (abs_path p) of
        Inl e \<Rightarrow> Inl e
      | Inr sz \<Rightarrow>
          (case index_get idx (rel_path p) of
             (r_size, r_sha) \<Rightarrow>
               if Some sz \<noteq> r_size then
                 to_send_loop has_file_digest fs idx ps
                   (to_send @ [(abs_path p, rel_path p)]) hashed
               else
                 (case sha1_file has_file_digest fs (abs_path p) default_buf of
                    Inl e \<Rightarrow> Inl e
                  | Inr h \<Rightarrow>
                      if Some h \<noteq> r_sha then
                        to_send_loop has_file_digest fs idx ps
                          (to_send @ [(abs_path p, rel_path p)]) (hashed @ [abs_path p])
                      else
                        to_send_loop has_file_digest fs idx ps
                          to_send (hashed @ [abs_path p]))))"

definition diff_engine ::
  "bool \<Rightarrow> file_system \<Rightarrow> remote_index \<Rightarrow> local_path list
     \<Rightarrow> py_exception + ((string \<times> string) list \<times> string list)" where
  "diff_engine has_file_digest fs idx local = to_send_loop has_file_digest fs idx local [] []"

section \<open>The run: \<^verbatim>\<open>main\<close>\<close>

text \<open>
  \<^verbatim>\<open>batch_sz = int(c.get("batch_size", "100"))\<close>. The built-in \<^verbatim>\<open>int\<close> on text is
  a parameter, \<open>int_builtin\<close>; \<open>configured\<close> is the value of the key
  \<^verbatim>\<open>batch_size\<close> in the configuration, \<open>None\<close> when the key is absent.
\<close>

definition batch_sz ::
  "(string \<Rightarrow> py_exception + int) \<Rightarrow> string option \<Rightarrow> py_exception + int" where
  "batch_sz int_builtin configured =
     int_builtin (case configured of None \<Rightarrow> ''100'' | Some text \<Rightarrow> text)"

text \<open>
  The part of \<^verbatim>\<open>main\<close> that synchronises, in the order of the source: the batch size
  is read from the configuration, the listing is pulled through
  \<^verbatim>\<open>retry_on_rate_limit\<close> and checked, the local files (\<open>local\<close>, the result of the
  scan) are compared with the remote index, the operator confirms unless
  \<open>skip_input\<close> (\<open>confirmed\<close>: the answer to \<^verbatim>\<open>Continue? [y/N]\<close> is \<^verbatim>\<open>y\<close>), and the
  batches are uploaded. The result is the number of files sent, or the exception that
  ends the run. Prompts for credentials, the creation of the client and the progress bar
  are left out.
\<close>

definition main_sync ::
  "(string \<Rightarrow> py_exception + int) \<Rightarrow> string option
     \<Rightarrow> (nat \<Rightarrow> py_exception + raw_listing)
     \<Rightarrow> (nat \<Rightarrow> (string \<times> string) list \<Rightarrow> nat \<Rightarrow> py_exception + unit)
     \<Rightarrow> bool \<Rightarrow> file_system \<Rightarrow> local_path list \<Rightarrow> bool \<Rightarrow> bool \<Rightarrow> world
     \<Rightarrow> ((py_exception + nat) \<times> world) option" where
  "main_sync int_builtin configured listitems upload has_file_digest fs local
       skip_input confirmed w =
     (case batch_sz int_builtin configured of
        Inl e \<Rightarrow> Some (Inl e, w)
      | Inr n \<Rightarrow>
          (case retry_on_rate_limit listitems w of
             None \<Rightarrow> None
           | Some (Inl e, w1) \<Rightarrow> Some (Inl e, w1)
           | Some (Inr raw, w1) \<Rightarrow>
               (case pull_remote_index raw of
                  Inl e \<Rightarrow> Some (Inl e, w1)
                | Inr idx \<Rightarrow>
                    (case diff_engine has_file_digest fs idx local of
                       Inl e \<Rightarrow> Some (Inl e, w1)
                     | Inr (to_send, hashed) \<Rightarrow>
                         if \<not> skip_input \<and> (to_send = [] \<or> \<not> confirmed) then Some (Inr 0, w1)
                         else
                           (case chunked to_send n of
                              Inl e \<Rightarrow> Some (Inl e, w1)
                            | Inr chunks \<Rightarrow> upload_loop upload 0 chunks 0 w1)))))"

section \<open>The upload rule in the words of the specification\<close>

text \<open>
  A local file is \<open>stale\<close> when the remote index has no entry under its relative path, or
  the entry's size differs from the local size, or the entry's hash differs from the
  hash of the local content. \<open>same_size\<close>: the remote index has an entry of the local
  size.
\<close>

definition stale :: "bool \<Rightarrow> file_system \<Rightarrow> remote_index \<Rightarrow> local_path \<Rightarrow> bool" where
  "stale has_file_digest fs idx p =
     (case idx (rel_path p) of
        None \<Rightarrow> True
      | Some (r_size, r_sha) \<Rightarrow>
          stat_size fs (abs_path p) \<noteq> Inr r_size
          \<or> sha1_file has_file_digest fs (abs_path p) default_buf \<noteq> Inr r_sha)"

definition same_size :: "file_system \<Rightarrow> remote_index \<Rightarrow> local_path \<Rightarrow> bool" where
  "same_size fs idx p =
     (case idx (rel_path p) of
        None \<Rightarrow> False
      | Some (r_size, r_sha) \<Rightarrow> stat_size fs (abs_path p) = Inr r_size)"

section \<open>Example inputs\<close>

definition w0 :: world where
  "w0 = \<lparr>calls = 0, slept = [], printed = []\<rparr>"

text \<open>An operation that answers 503 six times and then returns.\<close>

definition busy_six_times :: "nat \<Rightarrow> py_exception + unit" where
  "busy_six_times k = (if k < 6 then Inl (HTTPError (Some 503)) else Inr ())"

definition always_busy :: "nat \<Rightarrow> py_exception + unit" where
  "always_busy k = Inl (HTTPError (Some 503))"

definition not_found :: "nat \<Rightarrow> py_exception + unit" where
  "not_found k = Inl (HTTPError (Some 404))"

definition unauthorized_after_two :: "nat \<Rightarrow> py_exception + unit" where
  "unauthorized_after_two k =
     (if k < 2 then Inl (HTTPError (Some 429)) else Inl (HTTPError (Some 401)))"

definition connection_lost :: "nat \<Rightarrow> py_exception + unit" where
  "connection_lost k = Inl (OtherError ''ConnectionError'')"

definition timeout_after_one :: "nat \<Rightarrow> py_exception + unit" where
  "timeout_after_one k =
     (if k < 1 then Inl (HTTPError (Some 502)) else Inl (OtherError ''Timeout''))"

text \<open>
  Two batches: the upload of the first answers 503 twice and then succeeds, the upload of
  the second answers 429 once and then succeeds.
\<close>

definition two_uploads :: "nat \<Rightarrow> string list \<Rightarrow> nat \<Rightarrow> py_exception + unit" where
  "two_uploads i chunk k =
     (if i = 0 then (if k < 2 then Inl (HTTPError (Some 503)) else Inr ())
      else (if k < 1 then Inl (HTTPError (Some 429)) else Inr ()))"

definition busy_twice :: "nat \<Rightarrow> py_exception + unit" where
  "busy_twice k = (if k < 2 then Inl (HTTPError (Some 503)) else Inr ())"

definition limited_once :: "nat \<Rightarrow> py_exception + unit" where
  "limited_once k = (if k < 1 then Inl (HTTPError (Some 429)) else Inr ())"

text \<open>
  A site with \<^verbatim>\<open>a.html\<close> unchanged, \<^verbatim>\<open>b.css\<close> new, \<^verbatim>\<open>d.js\<close> of another size than
  the remote copy, and a remote directory and a remote file with no local counterpart.
\<close>

definition site_fs :: file_system where
  "site_fs =
     [''/site/a.html'' \<mapsto> \<lparr>st_size = 1, content = Some [0x61]\<rparr>,
      ''/site/b.css'' \<mapsto> \<lparr>st_size = 2, content = Some [0x62, 0x63]\<rparr>,
      ''/site/d.js'' \<mapsto> \<lparr>st_size = 3, content = Some [0x64, 0x65, 0x66]\<rparr>]"

definition site_local :: "local_path list" where
  "site_local =
     [\<lparr>abs_path = ''/site/a.html'', rel_path = ''a.html''\<rparr>,
      \<lparr>abs_path = ''/site/b.css'', rel_path = ''b.css''\<rparr>,
      \<lparr>abs_path = ''/site/d.js'', rel_path = ''d.js''\<rparr>]"

definition site_files :: "remote_file list" where
  "site_files =
     [\<lparr>path = ''a.html'', is_directory = False, size_field = 1,
       sha1_hash = hex_of_bytes (sha1 [0x61])\<rparr>,
      \<lparr>path = ''img'', is_directory = True, size_field = 0, sha1_hash = []\<rparr>,
      \<lparr>path = ''c.png'', is_directory = False, size_field = 9,
       sha1_hash = hex_of_bytes (sha1 [0x63])\<rparr>,
      \<lparr>path = ''d.js'', is_directory = False, size_field = 7,
       sha1_hash = hex_of_bytes (sha1 [0x64])\<rparr>]"

definition site_listing :: raw_listing where
  "site_listing = \<lparr>result = Some ''success'', files = Some site_files, message = None\<rparr>"

definition error_listing :: raw_listing where
  "error_listing = \<lparr>result = Some ''error'', files = None, message = Some ''invalid auth''\<rparr>"

definition js_local :: "local_path list" where
  "js_local = [\<lparr>abs_path = ''/site/d.js'', rel_path = ''d.js''\<rparr>]"

definition only_hundred :: "string \<Rightarrow> py_exception + int" where
  "only_hundred text = (if text = ''100'' then Inr 100 else Inl ValueError)"

definition no_listing :: "nat \<Rightarrow> py_exception + raw_listing" where
  "no_listing k = Inl (OtherError ''ConnectionError'')"

definition no_upload :: "nat \<Rightarrow> (string \<times> string) list \<Rightarrow> nat \<Rightarrow> py_exception + unit" where
  "no_upload i chunk k = Inl (OtherError ''ConnectionError'')"

section \<open>Properties of the batcher\<close>

lemma py_range_from_nonpos_step:
  "step < 0 \<Longrightarrow> start \<le> stop \<Longrightarrow> py_range_from start stop step = []"
  by (simp add: py_range_from.simps)

lemma py_slice_nonneg:
  "0 \<le> i \<Longrightarrow> 0 < n \<Longrightarrow> py_slice seq i (i + n) = take (nat n) (drop (nat i) seq)"
  by (auto simp: py_slice_def slice_index_def Let_def min_def nat_add_distrib)

lemma concat_chunks_from:
  "0 < n \<Longrightarrow> 0 \<le> i \<Longrightarrow>
   concat (map (\<lambda>j. py_slice seq j (j + n)) (py_range_from i (int (length seq)) n)) = drop (nat i) seq"
proof (induction i "int (length seq)" n rule: py_range_from.induct)
  case (1 i step)
  show ?case
  proof (cases "i < int (length seq)")
    case True
    have "drop (nat (i + step)) seq = drop (nat step) (drop (nat i) seq)"
      using 1 by (simp add: nat_add_distrib add.commute)
    with 1 True show ?thesis
      by (subst py_range_from.simps) (simp add: py_slice_nonneg del: drop_drop)
  next
    case False
    with 1 show ?thesis
      by (subst py_range_from.simps) simp
  qed
qed

lemma length_py_range_from:
  "0 < n \<Longrightarrow> length (py_range_from i stop n) = nat (- ((i - stop) div n))"
proof (induction i stop n rule: py_range_from.induct)
  case (1 i stop step)
  show ?case
  proof (cases "i < stop")
    case True
    have "(i + step - stop) div step = (i - stop) div step + 1"
      using 1 by (metis add.commute add_diff_eq div_add_self1 less_int_code(1) add.commute diff_add_eq)
    moreover have "(i - stop) div step < 0" using True 1
      by (simp add: pos_imp_zdiv_neg_iff)
    ultimately show ?thesis using 1 True
      by (subst py_range_from.simps) (simp add: nat_diff_distrib)
  next
    case False
    then have "0 \<le> (i - stop) div step" using 1 by (simp add: pos_imp_zdiv_nonneg_iff)
    with 1 False show ?thesis
      by (subst py_range_from.simps) simp
  qed
qed

lemma nth_py_range_from:
  "0 < n \<Longrightarrow> k < length (py_range_from i stop n) \<Longrightarrow> py_range_from i stop n ! k = i + int k * n"
proof (induction i stop n arbitrary: k rule: py_range_from.induct)
  case (1 i stop step)
  show ?case
  proof (cases "i < stop")
    case True
    then have eq: "py_range_from i stop step = i # py_range_from (i + step) stop step"
      using 1 by (subst py_range_from.simps) simp
    show ?thesis
    proof (cases k)
      case 0
      then show ?thesis by (simp add: eq)
    next
      case (Suc k')
      with 1 True eq show ?thesis by (simp add: algebra_simps)
    qed
  next
    case False
    with 1 show ?thesis by (subst (asm) (2) py_range_from.simps) simp
  qed
qed


lemma chunked_pos:
  "0 < n \<Longrightarrow> chunked seq n = Inr (map (\<lambda>i. py_slice seq i (i + n)) (py_range_from 0 (int (length seq)) n))"
  by (simp add: chunked_def py_range_def)

lemma ceil_div: "0 < n \<Longrightarrow> nat (- ((0 - int L) div n)) = nat \<lceil>real L / real_of_int n\<rceil>"
  by (metis ceiling_divide_eq_div diff_0 of_int_of_nat_eq)

lemma nth_chunk:
  assumes "0 < n" "k < length (py_range_from 0 (int (length seq)) n)"
  shows "py_slice seq (py_range_from 0 (int (length seq)) n ! k) (py_range_from 0 (int (length seq)) n ! k + n)
         = take (nat n) (drop (k * nat n) seq)"
proof -
  have "py_range_from 0 (int (length seq)) n ! k = int k * n"
    using nth_py_range_from [OF assms] by simp
  moreover have "nat (int k * n) = k * nat n"
    using assms by (simp add: nat_mult_distrib)
  ultimately show ?thesis using assms by (simp add: py_slice_nonneg)
qed

lemma div_less_imp_less_mult:
  fixes n a m :: int
  assumes "0 < n" "a div n < m"
  shows "a < m * n"
proof -
  have "a = n * (a div n) + a mod n" by simp
  moreover have "a mod n < n" using assms(1) by simp
  moreover have "n * (a div n) \<le> n * (m - 1)"
    using assms by (intro mult_left_mono) auto
  ultimately have "a < n * (m - 1) + n" by linarith
  then show ?thesis by (simp add: algebra_simps)
qed

lemma chunk_count_bound:
  assumes "0 < n" "k < nat (- ((0 - int L) div n))"
  shows "k * nat n < L"
proof -
  have "int k < - ((- int L) div n)" using assms by simp
  then have "(- int L) div n < - int k" by simp
  then have "- int L < (- int k) * n"
    using assms(1) by (rule div_less_imp_less_mult [rotated])
  then have "int k * n < int L" by simp
  moreover have "int (k * nat n) = int k * n" using assms(1) by simp
  ultimately have "int (k * nat n) < int L" by (simp only:)
  then show ?thesis by (simp only: of_nat_less_iff)
qed

text \<open>
  Claim C3. For every list of length \<open>L\<close> and every batch size \<open>n > 0\<close>, the batcher
  yields exactly \<open>\<lceil>L / n\<rceil>\<close> batches; the \<open>k\<close>-th batch is the contiguous slice of
  \<open>n\<close> elements that starts at \<open>k * n\<close>, so the batches do not overlap; every batch but
  the last has \<open>n\<close> elements and the last has between 1 and \<open>n\<close>; the batches
  concatenated in order are the list; and the empty list yields no batch.
\<close>

theorem chunked_batches:
  assumes "0 < n"
  shows "\<exists>bs. chunked seq n = Inr bs
           \<and> length bs = nat \<lceil>real (length seq) / real_of_int n\<rceil>
           \<and> (\<forall>k<length bs. bs ! k = take (nat n) (drop (k * nat n) seq))
           \<and> (\<forall>k. Suc k < length bs \<longrightarrow> length (bs ! k) = nat n)
           \<and> (\<forall>k. Suc k = length bs \<longrightarrow> 0 < length (bs ! k) \<and> length (bs ! k) \<le> nat n)
           \<and> concat bs = seq
           \<and> (seq = [] \<longrightarrow> bs = [])"
proof -
  define starts where "starts = py_range_from 0 (int (length seq)) n"
  define bs where "bs = map (\<lambda>i. py_slice seq i (i + n)) starts"
  have run: "chunked seq n = Inr bs"
    using assms by (simp add: chunked_pos bs_def starts_def)
  have len: "length bs = nat (- ((0 - int (length seq)) div n))"
    using assms by (simp add: bs_def starts_def length_py_range_from)
  have count: "length bs = nat \<lceil>real (length seq) / real_of_int n\<rceil>"
    using assms len by (simp only: ceil_div)
  have nth: "bs ! k = take (nat n) (drop (k * nat n) seq)" if "k < length bs" for k
    using that assms nth_chunk [of n k seq] by (simp add: bs_def starts_def)
  have start_in: "k * nat n < length seq" if "k < length bs" for k
    using that assms len chunk_count_bound [of n k "length seq"] by simp
  have full: "length (bs ! k) = nat n" if "Suc k < length bs" for k
  proof -
    have "Suc k * nat n < length seq" using that by (rule start_in)
    then have "k * nat n + nat n < length seq" by (simp add: add.commute)
    moreover have "k < length bs" using that by simp
    ultimately show ?thesis by (simp add: nth)
  qed
  have last: "0 < length (bs ! k) \<and> length (bs ! k) \<le> nat n" if "Suc k = length bs" for k
  proof -
    have k: "k < length bs" using that by simp
    then have "k * nat n < length seq" by (rule start_in)
    then show ?thesis using assms by (simp add: nth [OF k])
  qed
  have cat: "concat bs = seq"
    using assms concat_chunks_from [of n 0 seq] by (simp add: bs_def starts_def)
  have empty: "bs = []" if "seq = []"
    using that len by simp
  from run count nth full last cat empty show ?thesis by blast
qed

lemma chunked_example_eval: "chunked [1, 2, 3, 4, 5 :: nat] 2 = Inr [[1, 2], [3, 4], [5]]"
  by (simp add: chunked_def py_range_def py_range_from.simps py_slice_def slice_index_def)

theorem chunked_batches_witness:
  "(0::int) < 2 \<and> chunked [1, 2, 3, 4, 5 :: nat] 2 = Inr [[1, 2], [3, 4], [5]]
   \<and> (\<exists>bs. chunked [1, 2, 3, 4, 5 :: nat] 2 = Inr bs
           \<and> length bs = nat \<lceil>real (length [1, 2, 3, 4, 5 :: nat]) / real_of_int 2\<rceil>
           \<and> concat bs = [1, 2, 3, 4, 5])"
  using chunked_batches [of 2 "[1, 2, 3, 4, 5 :: nat]"] chunked_example_eval by auto

section \<open>Properties of the resilient invoker\<close>

lemma delay_after_backoff: "delay_after i 60 = backoff i"
proof (induction i)
  case 0
  show ?case by (simp add: delay_after_def backoff_def)
next
  case (Suc i)
  have "delay_after (Suc i) 60 = min (delay_after i 60 * 2) 600"
    by (simp add: delay_after_def)
  also have "\<dots> = min (backoff i * 2) 600" by (simp add: Suc)
  also have "\<dots> = backoff (Suc i)" by (simp add: backoff_def min_def)
  finally show ?case .
qed

lemma backoff_values:
  "backoff i = (if i = 0 then 60 else if i = 1 then 120 else if i = 2 then 240
                else if i = 3 then 480 else 600)"
proof -
  have "4 \<le> i \<Longrightarrow> backoff i = 600"
  proof -
    assume "4 \<le> i"
    then have "(2::int) ^ 4 \<le> 2 ^ i" by (intro power_increasing) auto
    then show ?thesis by (simp add: backoff_def)
  qed
  moreover have "i < 4 \<Longrightarrow> i = 0 \<or> i = 1 \<or> i = 2 \<or> i = 3" by arith
  ultimately show ?thesis
    by (cases "i < 4") (auto simp: backoff_def)
qed

lemma retry_loop_transient_step:
  assumes "transient (fn a)"
  shows "retry_loop fn a d w =
         retry_loop fn (a + 1) (min (d * 2) 600)
           (w\<lparr>calls := calls w + 1, printed := printed w @ [(status_of (fn a), d)],
               slept := slept w @ [d]\<rparr>)"
  using assms
  by (subst retry_loop.simps)
     (auto simp: transient_def status_of_def split: sum.splits py_exception.splits option.splits)

lemma retry_loop_final:
  assumes "\<not> transient (fn a)"
  shows "retry_loop fn a d w = Some (final_outcome (fn a), w\<lparr>calls := calls w + 1\<rparr>)"
  using assms
  by (subst retry_loop.simps)
     (auto simp: transient_def final_outcome_def split: sum.splits py_exception.splits option.splits)

lemma retry_loop_skip:
  assumes "\<forall>i<n. transient (fn (a + i))"
  shows "retry_loop fn a d w =
         retry_loop fn (a + n) (delay_after n d)
           (w\<lparr>calls := calls w + n,
               printed := printed w @ map (\<lambda>i. (status_of (fn (a + i)), delay_after i d)) [0 ..< n],
               slept := slept w @ map (\<lambda>i. delay_after i d) [0 ..< n]\<rparr>)"
  using assms
proof (induction n)
  case 0
  show ?case by (simp add: delay_after_def)
next
  case (Suc n)
  then have "transient (fn (a + n))" by simp
  from retry_loop_transient_step [of fn "a + n", OF this] Suc show ?case
    by (simp add: delay_after_def)
qed

lemma retry_loop_Some_not_all_transient:
  assumes "retry_loop fn a d w = Some y"
  shows "\<exists>i. \<not> transient (fn i)"
proof (rule retry_loop.raw_induct [where P = "\<lambda>fn a d w y. \<exists>i. \<not> transient (fn i)", OF _ assms],
       goal_cases)
  case (1 rl fn attempt delay w y)
  show ?case
  proof (cases "transient (fn attempt)")
    case True
    then obtain c where c: "fn attempt = Inl (HTTPError (Some c))" "c \<in> set [429, 500, 502, 503, 504]"
      by (auto simp: transient_def split: sum.splits py_exception.splits option.splits)
    with 1(2) have "rl fn (attempt + 1) (min (delay * 2) 600)
        (w\<lparr>calls := calls w + 1, printed := printed w @ [(c, delay)], slept := slept w @ [delay]\<rparr>) = Some y"
      by simp
    then show ?thesis by (rule 1(1))
  next
    case False
    then show ?thesis by blast
  qed
qed

lemma upt_6: "[0 ..< 6] = [0, 1, 2, 3, 4, 5]"
  by (simp add: upt_rec)

lemma retry_ends_at:
  assumes "\<forall>i<n. transient (fn i)" and "\<not> transient (fn n)"
  shows "retry_on_rate_limit fn w =
        Some (final_outcome (fn n),
              w\<lparr>calls := calls w + n + 1,
                 printed := printed w @ map (\<lambda>i. (status_of (fn i), backoff i)) [0 ..< n],
                 slept := slept w @ map backoff [0 ..< n]\<rparr>)"
proof -
  from assms(1) have "\<forall>i<n. transient (fn (0 + i))" by simp
  from retry_loop_skip [OF this, of 60 w] assms(2) show ?thesis
    by (simp add: retry_on_rate_limit_def retry_loop_final delay_after_backoff)
qed

text \<open>
  Claim C2. When the wrapped operation fails with a transient HTTP status (429, 500, 502,
  503 or 504) \<open>n\<close> times in a row and its next invocation does anything else, the
  invoker sleeps \<open>backoff 0, ..., backoff (n - 1)\<close>, that is 60, 120, 240, 480, 600,
  600, ... (doubling, capped at 600), one sleep before each further attempt, raises
  nothing in between, and ends with the outcome of invocation \<open>n\<close>, for every \<open>n\<close>:
  there is no bound on the attempts. When every invocation fails with a transient status
  the call never returns and never raises.
\<close>

theorem retry_backoff:
  "((\<forall>i<n. transient (fn i)) \<and> \<not> transient (fn n) \<longrightarrow>
      retry_on_rate_limit fn w =
        Some (final_outcome (fn n),
              w\<lparr>calls := calls w + n + 1,
                 printed := printed w @ map (\<lambda>i. (status_of (fn i), backoff i)) [0 ..< n],
                 slept := slept w @ map backoff [0 ..< n]\<rparr>))
   \<and> ((\<forall>i. transient (fn i)) \<longrightarrow> retry_on_rate_limit fn w = None)
   \<and> backoff n = (if n = 0 then 60 else if n = 1 then 120 else if n = 2 then 240
                    else if n = 3 then 480 else 600)"
proof (intro conjI impI)
  assume a: "(\<forall>i<n. transient (fn i)) \<and> \<not> transient (fn n)"
  then have "\<forall>i<n. transient (fn (0 + i))" by simp
  from retry_loop_skip [OF this, of 60 w] a
  show "retry_on_rate_limit fn w =
        Some (final_outcome (fn n),
              w\<lparr>calls := calls w + n + 1,
                 printed := printed w @ map (\<lambda>i. (status_of (fn i), backoff i)) [0 ..< n],
                 slept := slept w @ map backoff [0 ..< n]\<rparr>)"
    by (simp add: retry_on_rate_limit_def retry_loop_final delay_after_backoff)
next
  assume all: "\<forall>i. transient (fn i)"
  show "retry_on_rate_limit fn w = None"
  proof (cases "retry_on_rate_limit fn w")
    case None
    then show ?thesis .
  next
    case (Some y)
    then have "\<exists>i. \<not> transient (fn i)"
      unfolding retry_on_rate_limit_def by (rule retry_loop_Some_not_all_transient)
    with all show ?thesis by blast
  qed
next
  show "backoff n = (if n = 0 then 60 else if n = 1 then 120 else if n = 2 then 240
                    else if n = 3 then 480 else 600)"
    by (rule backoff_values)
qed

theorem retry_backoff_witness:
  "transient (busy_six_times 0) \<and> transient (busy_six_times 1) \<and> transient (busy_six_times 2)
   \<and> transient (busy_six_times 3) \<and> transient (busy_six_times 4) \<and> transient (busy_six_times 5)
   \<and> \<not> transient (busy_six_times 6)
   \<and> retry_on_rate_limit busy_six_times w0 =
       Some (Inr (), \<lparr>calls = 7, slept = [60, 120, 240, 480, 600, 600],
                     printed = [(503, 60), (503, 120), (503, 240), (503, 480), (503, 600), (503, 600)]\<rparr>)
   \<and> (\<forall>i. transient (always_busy i)) \<and> retry_on_rate_limit always_busy w0 = None"
  using retry_backoff [of 6 busy_six_times w0] retry_backoff [of 0 always_busy w0]
  by (simp add: transient_def busy_six_times_def always_busy_def w0_def final_outcome_def
      status_of_def backoff_def upt_6)

text \<open>
  Claim C4. When the wrapped operation fails with an HTTP status that is not one of 429,
  500, 502, 503, 504 (404 or 401, say), that failure is re-raised to the caller on its
  first occurrence: no sleep follows it and the operation is not invoked again. In
  particular, when it is the first outcome, nothing was slept and the operation ran once.
\<close>

theorem retry_non_transient_http:
  assumes "\<forall>i<n. transient (fn i)"
    and "fn n = Inl (HTTPError (Some status))"
    and "status \<notin> set [429, 500, 502, 503, 504]"
  shows "retry_on_rate_limit fn w =
           Some (Inl (HTTPError (Some status)),
                 w\<lparr>calls := calls w + n + 1,
                    printed := printed w @ map (\<lambda>i. (status_of (fn i), backoff i)) [0 ..< n],
                    slept := slept w @ map backoff [0 ..< n]\<rparr>)
         \<and> (n = 0 \<longrightarrow> retry_on_rate_limit fn w =
               Some (Inl (HTTPError (Some status)), w\<lparr>calls := calls w + 1\<rparr>))"
proof -
  have nt: "\<not> transient (fn n)" using assms(2,3) by (simp add: transient_def)
  have fo: "final_outcome (fn n) = Inl (HTTPError (Some status))"
    using assms(2) by (simp add: final_outcome_def)
  from retry_ends_at [OF assms(1) nt, of w] fo show ?thesis by simp
qed

theorem retry_non_transient_http_witness:
  "not_found 0 = Inl (HTTPError (Some 404))
   \<and> (404::int) \<notin> set [429, 500, 502, 503, 504]
   \<and> retry_on_rate_limit not_found w0 =
       Some (Inl (HTTPError (Some 404)), \<lparr>calls = 1, slept = [], printed = []\<rparr>)
   \<and> transient (unauthorized_after_two 0) \<and> transient (unauthorized_after_two 1)
   \<and> unauthorized_after_two 2 = Inl (HTTPError (Some 401))
   \<and> (401::int) \<notin> set [429, 500, 502, 503, 504]
   \<and> retry_on_rate_limit unauthorized_after_two w0 =
       Some (Inl (HTTPError (Some 401)),
             \<lparr>calls = 3, slept = [60, 120], printed = [(429, 60), (429, 120)]\<rparr>)"
  using retry_non_transient_http [of 0 not_found 404 w0]
    retry_non_transient_http [of 2 unauthorized_after_two 401 w0]
  by (simp add: transient_def not_found_def unauthorized_after_two_def w0_def status_of_def
      backoff_def upt_rec)

text \<open>
  Claim C9. The invoker catches \<^verbatim>\<open>requests.HTTPError\<close> only: an exception of any other
  class raised by the wrapped operation (a connection failure or a timeout, say)
  propagates to the caller on its first occurrence, with no sleep after it and no
  further attempt.
\<close>

theorem retry_other_exception:
  assumes "\<forall>i<n. transient (fn i)"
    and "fn n = Inl e"
    and "\<forall>response. e \<noteq> HTTPError response"
  shows "retry_on_rate_limit fn w =
           Some (Inl e,
                 w\<lparr>calls := calls w + n + 1,
                    printed := printed w @ map (\<lambda>i. (status_of (fn i), backoff i)) [0 ..< n],
                    slept := slept w @ map backoff [0 ..< n]\<rparr>)
         \<and> (n = 0 \<longrightarrow> retry_on_rate_limit fn w = Some (Inl e, w\<lparr>calls := calls w + 1\<rparr>))"
proof -
  have nt: "\<not> transient (fn n)"
    using assms(2,3) by (cases e) (simp_all add: transient_def)
  have fo: "final_outcome (fn n) = Inl e"
    using assms(2,3) by (cases e) (simp_all add: final_outcome_def)
  from retry_ends_at [OF assms(1) nt, of w] fo show ?thesis by simp
qed

theorem retry_other_exception_witness:
  "connection_lost 0 = Inl (OtherError ''ConnectionError'')
   \<and> (\<forall>response. OtherError ''ConnectionError'' \<noteq> HTTPError response)
   \<and> retry_on_rate_limit connection_lost w0 =
       Some (Inl (OtherError ''ConnectionError''), \<lparr>calls = 1, slept = [], printed = []\<rparr>)
   \<and> transient (timeout_after_one 0)
   \<and> timeout_after_one 1 = Inl (OtherError ''Timeout'')
   \<and> (\<forall>response. OtherError ''Timeout'' \<noteq> HTTPError response)
   \<and> retry_on_rate_limit timeout_after_one w0 =
       Some (Inl (OtherError ''Timeout''), \<lparr>calls = 2, slept = [60], printed = [(502, 60)]\<rparr>)"
  using retry_other_exception [of 0 connection_lost "OtherError ''ConnectionError''" w0]
    retry_other_exception [of 1 timeout_after_one "OtherError ''Timeout''" w0]
  by (simp add: transient_def connection_lost_def timeout_after_one_def w0_def status_of_def
      backoff_def)

text \<open>
  Claim C6, as amended. The delay is a local variable of \<^verbatim>\<open>retry_on_rate_limit\<close>, set
  to 60 at the start of every call: when a wrapped call that met \<open>n1\<close> transient failures
  is followed by a wrapped call that meets \<open>n2\<close>, the second call sleeps
  \<open>backoff 0, ..., backoff (n2 - 1)\<close> again, and its first wait is 60 whatever delay the
  first call had reached.
\<close>

theorem retry_delay_restarts:
  assumes "\<forall>i<n1. transient (fn1 i)" and "\<not> transient (fn1 n1)"
    and "\<forall>i<n2. transient (fn2 i)" and "\<not> transient (fn2 n2)"
  shows "\<exists>r1 w1 r2 w2.
           retry_on_rate_limit fn1 w = Some (r1, w1)
         \<and> retry_on_rate_limit fn2 w1 = Some (r2, w2)
         \<and> slept w1 = slept w @ map backoff [0 ..< n1]
         \<and> slept w2 = slept w1 @ map backoff [0 ..< n2]
         \<and> (0 < n2 \<longrightarrow> slept w2 ! length (slept w1) = 60)"
proof -
  let ?w1 = "w\<lparr>calls := calls w + n1 + 1,
                printed := printed w @ map (\<lambda>i. (status_of (fn1 i), backoff i)) [0 ..< n1],
                slept := slept w @ map backoff [0 ..< n1]\<rparr>"
  let ?w2 = "?w1\<lparr>calls := calls ?w1 + n2 + 1,
                printed := printed ?w1 @ map (\<lambda>i. (status_of (fn2 i), backoff i)) [0 ..< n2],
                slept := slept ?w1 @ map backoff [0 ..< n2]\<rparr>"
  have 1: "retry_on_rate_limit fn1 w = Some (final_outcome (fn1 n1), ?w1)"
    by (rule retry_ends_at [OF assms(1,2)])
  have 2: "retry_on_rate_limit fn2 ?w1 = Some (final_outcome (fn2 n2), ?w2)"
    by (rule retry_ends_at [OF assms(3,4)])
  have 3: "slept ?w1 = slept w @ map backoff [0 ..< n1]" by simp
  have 4: "slept ?w2 = slept ?w1 @ map backoff [0 ..< n2]" by simp
  have 5: "slept ?w2 ! length (slept ?w1) = 60" if "0 < n2"
  proof -
    have "(map backoff [0 ..< n2]) ! 0 = backoff 0" using that by (simp add: nth_map_upt)
    then show ?thesis by (simp add: nth_append backoff_def)
  qed
  from 1 2 3 4 5 show ?thesis by blast
qed

theorem retry_delay_restarts_witness:
  "transient (busy_twice 0) \<and> transient (busy_twice 1) \<and> \<not> transient (busy_twice 2)
   \<and> transient (limited_once 0) \<and> \<not> transient (limited_once 1)
   \<and> (\<exists>r1 w1 r2 w2.
           retry_on_rate_limit busy_twice w0 = Some (r1, w1)
         \<and> retry_on_rate_limit limited_once w1 = Some (r2, w2)
         \<and> slept w1 = [60, 120]
         \<and> slept w2 = [60, 120, 60]
         \<and> slept w2 ! length (slept w1) = 60)"
  using retry_delay_restarts [of 2 busy_twice 1 limited_once w0]
  by (auto simp: transient_def busy_twice_def limited_once_def w0_def backoff_def upt_rec)

text \<open>
  The claim as it was stated fails: after a call whose two transient failures raised the
  delay to 240, the first transient failure of the next call waits 60; so it is for two
  batches uploaded one after the other in the same run.
\<close>

theorem retry_delay_carried_over_counterexample:
  "retry_on_rate_limit busy_twice w0 =
     Some (Inr (), \<lparr>calls = 3, slept = [60, 120], printed = [(503, 60), (503, 120)]\<rparr>)
   \<and> retry_on_rate_limit limited_once
       \<lparr>calls = 3, slept = [60, 120], printed = [(503, 60), (503, 120)]\<rparr> =
     Some (Inr (), \<lparr>calls = 5, slept = [60, 120, 60],
                    printed = [(503, 60), (503, 120), (429, 60)]\<rparr>)
   \<and> upload_loop two_uploads 0 [[''a''], [''b'']] 0 w0 =
     Some (Inr 2, \<lparr>calls = 5, slept = [60, 120, 60],
                   printed = [(503, 60), (503, 120), (429, 60)]\<rparr>)"
  by (simp add: retry_on_rate_limit_def retry_loop.simps busy_twice_def limited_once_def
      two_uploads_def w0_def)


section \<open>Properties of the content hasher\<close>

lemma read_loop_all: "buf \<noteq> 0 \<Longrightarrow> read_loop h fh buf = h @ fh"
proof (induction h fh buf rule: read_loop.induct)
  case (1 h fh buf)
  show ?case
  proof (cases "fst (fh_read fh buf) = []")
    case True
    then have "fh = []" using 1(2) by (auto simp: fh_read_def split: if_splits)
    with True show ?thesis by (subst read_loop.simps) simp
  next
    case False
    then have "read_loop h fh buf
        = read_loop (hash_update h (fst (fh_read fh buf))) (snd (fh_read fh buf)) buf"
      by (subst read_loop.simps) simp
    also have "\<dots> = hash_update h (fst (fh_read fh buf)) @ snd (fh_read fh buf)"
      using 1 False by simp
    also have "\<dots> = h @ fh"
      by (simp add: hash_update_def fh_read_def)
    finally show ?thesis .
  qed
qed

lemma file_digest_loop_all: "file_digest_loop h fh = h @ fh"
proof (induction h fh rule: file_digest_loop.induct)
  case (1 h fh)
  show ?case
  proof (cases "take (2 ^ 18) fh = []")
    case True
    then have "fh = []" by simp
    with True show ?thesis by (subst file_digest_loop.simps) simp
  next
    case False
    then have "file_digest_loop h fh
        = file_digest_loop (hash_update h (take (2 ^ 18) fh)) (drop (2 ^ 18) fh)"
      by (subst file_digest_loop.simps) simp
    also have "\<dots> = hash_update h (take (2 ^ 18) fh) @ drop (2 ^ 18) fh"
      using 1 False by simp
    also have "\<dots> = h @ fh" by (simp add: hash_update_def)
    finally show ?thesis .
  qed
qed

lemma length_sha1: "length (sha1 m) = 20"
  by (simp add: sha1_def bytes_of_word32_def split: prod.splits)

lemma length_hex_of_bytes: "length (hex_of_bytes bs) = 2 * length bs"
  by (induction bs) (simp_all add: hex_of_bytes_def)

lemma hex_digit_in: "hex_digit n \<in> set ''0123456789abcdef''"
proof -
  have "n mod 16 < length ''0123456789abcdef''" by simp
  then show ?thesis unfolding hex_digit_def by (rule nth_mem)
qed

lemma set_hex_of_bytes: "set (hex_of_bytes bs) \<subseteq> set ''0123456789abcdef''"
  using hex_digit_in by (induction bs) (simp_all add: hex_of_bytes_def)

lemma sha1_file_readable:
  assumes "fs p = Some node" "content node = Some bs" "buf \<noteq> 0"
  shows "sha1_file b fs p buf = Inr (hex_of_bytes (sha1 bs))"
  using assms
  by (simp add: sha1_file_def open_rb_def hexdigest_def file_digest_def hashlib_sha1_def
      read_loop_all file_digest_loop_all)

lemma sha1_file_agree:
  assumes "buf \<noteq> 0"
  shows "sha1_file True fs p buf = sha1_file False fs p buf"
  using assms
  by (simp add: sha1_file_def hexdigest_def file_digest_def hashlib_sha1_def
      read_loop_all file_digest_loop_all split: sum.splits)

text \<open>
  Claim C10. The two paths of the content hasher agree: with the default buffer size, and
  with any buffer size other than zero, the path through \<^verbatim>\<open>hashlib.file_digest\<close> and the
  manual loop of chunked reads return the same result for every path, and for a readable
  file both return the SHA-1 digest of the whole content of the file as 40 lower-case
  hexadecimal characters.
\<close>

theorem sha1_file_paths_agree:
  "sha1_file True fs p default_buf = sha1_file False fs p default_buf
   \<and> (buf \<noteq> 0 \<longrightarrow> sha1_file True fs p buf = sha1_file False fs p buf)
   \<and> (fs p = Some node \<and> content node = Some bs \<and> buf \<noteq> 0 \<longrightarrow>
        sha1_file True fs p buf = Inr (hex_of_bytes (sha1 bs))
        \<and> sha1_file False fs p buf = Inr (hex_of_bytes (sha1 bs))
        \<and> length (hex_of_bytes (sha1 bs)) = 40
        \<and> set (hex_of_bytes (sha1 bs)) \<subseteq> set ''0123456789abcdef'')"
proof (intro conjI impI)
  show "sha1_file True fs p default_buf = sha1_file False fs p default_buf"
    by (rule sha1_file_agree) (simp add: default_buf_def)
next
  assume "buf \<noteq> 0"
  then show "sha1_file True fs p buf = sha1_file False fs p buf"
    by (rule sha1_file_agree)
next
  assume a: "fs p = Some node \<and> content node = Some bs \<and> buf \<noteq> 0"
  then show "sha1_file True fs p buf = Inr (hex_of_bytes (sha1 bs))"
    by (simp add: sha1_file_readable)
  from a show "sha1_file False fs p buf = Inr (hex_of_bytes (sha1 bs))"
    by (simp add: sha1_file_readable)
next
  show "length (hex_of_bytes (sha1 bs)) = 40"
    by (simp add: length_hex_of_bytes length_sha1)
next
  show "set (hex_of_bytes (sha1 bs)) \<subseteq> set ''0123456789abcdef''"
    by (rule set_hex_of_bytes)
qed

theorem sha1_file_paths_agree_witness:
  "site_fs ''/site/d.js'' = Some \<lparr>st_size = 3, content = Some [0x64, 0x65, 0x66]\<rparr>
   \<and> (2::int) \<noteq> 0
   \<and> sha1_file True site_fs ''/site/d.js'' 2 = Inr (hex_of_bytes (sha1 [0x64, 0x65, 0x66]))
   \<and> sha1_file False site_fs ''/site/d.js'' 2 = Inr (hex_of_bytes (sha1 [0x64, 0x65, 0x66]))
   \<and> sha1_file True site_fs ''/site/d.js'' 2 = sha1_file False site_fs ''/site/d.js'' 2
   \<and> length (hex_of_bytes (sha1 [0x64, 0x65, 0x66])) = 40"
  using sha1_file_paths_agree
    [of site_fs "''/site/d.js''" 2 "\<lparr>st_size = 3, content = Some [0x64, 0x65, 0x66]\<rparr>"
        "[0x64, 0x65, 0x66]"]
  by (simp add: site_fs_def)

section \<open>Properties of the diff engine and of the remote index\<close>

lemma to_send_loop_result:
  "to_send_loop hfd fs idx ps ts hs = Inr (ts', hs') \<Longrightarrow>
   ts' = ts @ map (\<lambda>p. (abs_path p, rel_path p)) (filter (stale hfd fs idx) ps)
   \<and> hs' = hs @ map abs_path (filter (same_size fs idx) ps)"
proof (induction ps arbitrary: ts hs)
  case Nil
  then show ?case by simp
next
  case (Cons p ps)
  from Cons.prems obtain sz where sz: "stat_size fs (abs_path p) = Inr sz"
    by (auto split: sum.splits)
  show ?case
  proof (cases "idx (rel_path p)")
    case None
    with sz Cons.prems
    have "to_send_loop hfd fs idx ps (ts @ [(abs_path p, rel_path p)]) hs = Inr (ts', hs')"
      by (simp add: index_get_def)
    from Cons.IH [OF this] None show ?thesis
      by (simp add: stale_def same_size_def)
  next
    case (Some entry)
    obtain r_size r_sha where entry: "entry = (r_size, r_sha)" by (cases entry)
    show ?thesis
    proof (cases "sz = r_size")
      case False
      with sz Some entry Cons.prems
      have "to_send_loop hfd fs idx ps (ts @ [(abs_path p, rel_path p)]) hs = Inr (ts', hs')"
        by (simp add: index_get_def)
      from Cons.IH [OF this] Some entry False sz show ?thesis
        by (simp add: stale_def same_size_def)
    next
      case True
      with sz Some entry Cons.prems obtain h where
        h: "sha1_file hfd fs (abs_path p) default_buf = Inr h"
        by (auto simp: index_get_def split: sum.splits)
      show ?thesis
      proof (cases "h = r_sha")
        case False
        with True h sz Some entry Cons.prems
        have "to_send_loop hfd fs idx ps (ts @ [(abs_path p, rel_path p)]) (hs @ [abs_path p])
              = Inr (ts', hs')"
          by (simp add: index_get_def)
        from Cons.IH [OF this] Some entry True False sz h show ?thesis
          by (simp add: stale_def same_size_def)
      next
        case heq: True
        with True h sz Some entry Cons.prems
        have "to_send_loop hfd fs idx ps ts (hs @ [abs_path p]) = Inr (ts', hs')"
          by (simp add: index_get_def)
        from Cons.IH [OF this] Some entry True heq sz h show ?thesis
          by (simp add: stale_def same_size_def)
      qed
    qed
  qed
qed

lemma to_send_loop_total:
  assumes "\<forall>p\<in>set ps. \<exists>node bs. fs (abs_path p) = Some node \<and> content node = Some bs"
  shows "\<exists>r. to_send_loop hfd fs idx ps ts hs = Inr r"
  using assms
proof (induction ps arbitrary: ts hs)
  case Nil
  show ?case by simp
next
  case (Cons p ps)
  then obtain node bs where n: "fs (abs_path p) = Some node" "content node = Some bs"
    by auto
  have rest: "\<exists>r. to_send_loop hfd fs idx ps ts' hs' = Inr r" for ts' hs'
    using Cons by simp
  have st: "stat_size fs (abs_path p) = Inr (st_size node)"
    using n by (simp add: stat_size_def)
  have "\<exists>h. sha1_file hfd fs (abs_path p) default_buf = Inr h"
    using n by (simp add: sha1_file_def open_rb_def)
  then obtain h where h: "sha1_file hfd fs (abs_path p) default_buf = Inr h" ..
  show ?case
    using rest by (simp add: st h split: prod.splits)
qed

lemma stale_pair:
  "abs_path p = abs_path q \<Longrightarrow> rel_path p = rel_path q \<Longrightarrow> stale hfd fs idx p = stale hfd fs idx q"
  by (simp add: stale_def split: option.splits)

lemma remote_index_of_snoc:
  "remote_index_of (fl @ [f]) =
     (if \<not> is_directory f then (remote_index_of fl)(path f \<mapsto> (size_field f, sha1_hash f))
      else remote_index_of fl)"
  by (simp add: remote_index_of_def)

lemma remote_index_of_lookup:
  "remote_index_of fl p =
     map_option (\<lambda>f. (size_field f, sha1_hash f))
       (find (\<lambda>f. path f = p) (rev (filter (\<lambda>f. \<not> is_directory f) fl)))"
proof (induction fl rule: rev_induct)
  case Nil
  show ?case by (simp add: remote_index_of_def)
next
  case (snoc f fl)
  then show ?case by (simp add: remote_index_of_snoc)
qed

lemma dom_remote_index_of:
  "dom (remote_index_of fl) = path ` {f \<in> set fl. \<not> is_directory f}"
proof (induction fl rule: rev_induct)
  case Nil
  show ?case by (simp add: remote_index_of_def)
next
  case (snoc f fl)
  then show ?case by (auto simp: remote_index_of_snoc)
qed

lemma site_index_eval:
  "remote_index_of site_files =
     [''a.html'' \<mapsto> (1, hex_of_bytes (sha1 [0x61])),
      ''c.png'' \<mapsto> (9, hex_of_bytes (sha1 [0x63])),
      ''d.js'' \<mapsto> (7, hex_of_bytes (sha1 [0x64]))]"
  by (simp add: remote_index_of_def site_files_def)

lemma site_index_get:
  "index_get (remote_index_of site_files) ''a.html'' = (Some 1, Some (hex_of_bytes (sha1 [0x61])))"
  "index_get (remote_index_of site_files) ''b.css'' = (None, None)"
  "index_get (remote_index_of site_files) ''d.js'' = (Some 7, Some (hex_of_bytes (sha1 [0x64])))"
  by (simp_all add: site_index_eval index_get_def)

lemma site_stat:
  "stat_size site_fs ''/site/a.html'' = Inr 1"
  "stat_size site_fs ''/site/b.css'' = Inr 2"
  "stat_size site_fs ''/site/d.js'' = Inr 3"
  by (simp_all add: stat_size_def site_fs_def)

lemma site_hash_a:
  "sha1_file hfd site_fs ''/site/a.html'' default_buf = Inr (hex_of_bytes (sha1 [0x61]))"
  by (rule sha1_file_readable [where node = "\<lparr>st_size = 1, content = Some [0x61]\<rparr>"])
     (simp_all add: site_fs_def default_buf_def)

lemma site_diff_eval:
  "diff_engine hfd site_fs (remote_index_of site_files) site_local =
     Inr ([(''/site/b.css'', ''b.css''), (''/site/d.js'', ''d.js'')], [''/site/a.html''])"
  by (simp add: diff_engine_def site_local_def site_index_get site_stat site_hash_a)

lemma site_js_eval:
  "diff_engine hfd site_fs (remote_index_of site_files) js_local =
     Inr ([(''/site/d.js'', ''d.js'')], [])"
  by (simp add: diff_engine_def js_local_def site_index_get site_stat)

lemma site_remote_paths:
  "path ` {f \<in> set site_files. \<not> is_directory f} = {''a.html'', ''c.png'', ''d.js''}"
proof -
  have "path ` {f \<in> set site_files. \<not> is_directory f}
        = set (map path (filter (\<lambda>f. \<not> is_directory f) site_files))"
    by simp
  also have "map path (filter (\<lambda>f. \<not> is_directory f) site_files) = [''a.html'', ''c.png'', ''d.js'']"
    by (simp add: site_files_def)
  finally show ?thesis by simp
qed

text \<open>
  Claim C1. When the diff loop completes, the upload set is the local files that are
  stale, in scan order: a local file is in it if and only if the remote index has no
  entry under its relative path, or the entry's size differs from the local size, or the
  entry's hash differs from the hash of the local content; so a file that matches in size
  and hash is never in it. The loop completes whenever every local file exists and can be
  read.
\<close>

theorem diff_engine_upload_set:
  "(diff_engine hfd fs idx local = Inr (to_send, hashed) \<longrightarrow>
      to_send = map (\<lambda>p. (abs_path p, rel_path p)) (filter (stale hfd fs idx) local)
      \<and> (\<forall>p\<in>set local.
            (abs_path p, rel_path p) \<in> set to_send \<longleftrightarrow>
              (idx (rel_path p) = None
               \<or> (\<exists>r_size r_sha. idx (rel_path p) = Some (r_size, r_sha)
                    \<and> (stat_size fs (abs_path p) \<noteq> Inr r_size
                       \<or> sha1_file hfd fs (abs_path p) default_buf \<noteq> Inr r_sha)))))
   \<and> ((\<forall>p\<in>set local. \<exists>node bs. fs (abs_path p) = Some node \<and> content node = Some bs) \<longrightarrow>
        (\<exists>r. diff_engine hfd fs idx local = Inr r))"
proof (intro conjI impI)
  assume run: "diff_engine hfd fs idx local = Inr (to_send, hashed)"
  from to_send_loop_result [OF run [unfolded diff_engine_def]]
  show ts: "to_send = map (\<lambda>p. (abs_path p, rel_path p)) (filter (stale hfd fs idx) local)"
    by simp
  show "\<forall>p\<in>set local.
            (abs_path p, rel_path p) \<in> set to_send \<longleftrightarrow>
              (idx (rel_path p) = None
               \<or> (\<exists>r_size r_sha. idx (rel_path p) = Some (r_size, r_sha)
                    \<and> (stat_size fs (abs_path p) \<noteq> Inr r_size
                       \<or> sha1_file hfd fs (abs_path p) default_buf \<noteq> Inr r_sha)))"
  proof
    fix p assume p: "p \<in> set local"
    have "(abs_path p, rel_path p) \<in> set to_send \<longleftrightarrow> stale hfd fs idx p"
    proof
      assume "(abs_path p, rel_path p) \<in> set to_send"
      then obtain q where q: "q \<in> set local" "stale hfd fs idx q"
        "abs_path q = abs_path p" "rel_path q = rel_path p"
        unfolding ts by auto
      from stale_pair [OF q(3,4)] q(2) show "stale hfd fs idx p" by simp
    next
      assume "stale hfd fs idx p"
      with p show "(abs_path p, rel_path p) \<in> set to_send"
        unfolding ts by force
    qed
    also have "stale hfd fs idx p \<longleftrightarrow>
      (idx (rel_path p) = None
               \<or> (\<exists>r_size r_sha. idx (rel_path p) = Some (r_size, r_sha)
                    \<and> (stat_size fs (abs_path p) \<noteq> Inr r_size
                       \<or> sha1_file hfd fs (abs_path p) default_buf \<noteq> Inr r_sha)))"
      by (auto simp: stale_def split: option.splits)
    finally show "(abs_path p, rel_path p) \<in> set to_send \<longleftrightarrow>
              (idx (rel_path p) = None
               \<or> (\<exists>r_size r_sha. idx (rel_path p) = Some (r_size, r_sha)
                    \<and> (stat_size fs (abs_path p) \<noteq> Inr r_size
                       \<or> sha1_file hfd fs (abs_path p) default_buf \<noteq> Inr r_sha)))" .
  qed
next
  assume "\<forall>p\<in>set local. \<exists>node bs. fs (abs_path p) = Some node \<and> content node = Some bs"
  then show "\<exists>r. diff_engine hfd fs idx local = Inr r"
    unfolding diff_engine_def by (rule to_send_loop_total)
qed

theorem diff_engine_upload_set_witness:
  "diff_engine True site_fs (remote_index_of site_files) site_local =
     Inr ([(''/site/b.css'', ''b.css''), (''/site/d.js'', ''d.js'')], [''/site/a.html''])
   \<and> [(''/site/b.css'', ''b.css''), (''/site/d.js'', ''d.js'')] =
       map (\<lambda>p. (abs_path p, rel_path p))
         (filter (stale True site_fs (remote_index_of site_files)) site_local)
   \<and> (''/site/a.html'', ''a.html'') \<notin> set [(''/site/b.css'', ''b.css''), (''/site/d.js'', ''d.js'')]
   \<and> index_get (remote_index_of site_files) ''a.html'' = (Some 1, Some (hex_of_bytes (sha1 [0x61])))
   \<and> stat_size site_fs ''/site/a.html'' = Inr 1
   \<and> sha1_file True site_fs ''/site/a.html'' default_buf = Inr (hex_of_bytes (sha1 [0x61]))
   \<and> index_get (remote_index_of site_files) ''b.css'' = (None, None)
   \<and> index_get (remote_index_of site_files) ''d.js'' = (Some 7, Some (hex_of_bytes (sha1 [0x64])))
   \<and> stat_size site_fs ''/site/d.js'' = Inr 3"
proof -
  note run = site_diff_eval [of True]
  note plan = diff_engine_upload_set
    [of True site_fs "remote_index_of site_files" site_local
        "[(''/site/b.css'', ''b.css''), (''/site/d.js'', ''d.js'')]" "[''/site/a.html'']",
     THEN conjunct1, THEN mp, OF run, THEN conjunct1]
  have absent: "(''/site/a.html'', ''a.html'')
      \<notin> set [(''/site/b.css'', ''b.css''), (''/site/d.js'', ''d.js'')]"
    by simp
  show ?thesis
    by (intro conjI run plan absent site_index_get site_stat site_hash_a)
qed

text \<open>
  Claim C5, as amended. The hasher is called exactly on the local files whose remote entry
  exists and has the local size, in scan order: Python's \<^verbatim>\<open>or\<close> does not evaluate
  \<^verbatim>\<open>sha1_file(p) != r_sha\<close> when \<^verbatim>\<open>size != r_size\<close> already holds, so a file with no
  remote entry or with a remote entry of another size is not hashed.
\<close>

theorem hasher_calls:
  "diff_engine hfd fs idx local = Inr (to_send, hashed) \<longrightarrow>
     hashed = map abs_path (filter (same_size fs idx) local)"
proof
  assume run: "diff_engine hfd fs idx local = Inr (to_send, hashed)"
  from to_send_loop_result [OF run [unfolded diff_engine_def]]
  show "hashed = map abs_path (filter (same_size fs idx) local)" by simp
qed

theorem hasher_calls_witness:
  "diff_engine True site_fs (remote_index_of site_files) site_local =
     Inr ([(''/site/b.css'', ''b.css''), (''/site/d.js'', ''d.js'')], [''/site/a.html''])
   \<and> [''/site/a.html''] =
       map abs_path (filter (same_size site_fs (remote_index_of site_files)) site_local)"
  using hasher_calls
    [of True site_fs "remote_index_of site_files" site_local
        "[(''/site/b.css'', ''b.css''), (''/site/d.js'', ''d.js'')]" "[''/site/a.html'']"]
    site_diff_eval [of True]
  by simp

text \<open>
  The claim as it was stated fails: \<^verbatim>\<open>d.js\<close> has 3 bytes locally and 7 remotely; the
  diff loop examines it and puts it in the upload set without calling the hasher.
\<close>

theorem hasher_on_size_mismatch_counterexample:
  "index_get (remote_index_of site_files) ''d.js'' = (Some 7, Some (hex_of_bytes (sha1 [0x64])))
   \<and> stat_size site_fs ''/site/d.js'' = Inr 3
   \<and> diff_engine True site_fs (remote_index_of site_files) js_local =
       Inr ([(''/site/d.js'', ''d.js'')], [])"
  by (simp add: site_js_eval site_index_get site_stat)

text \<open>
  Claim C8. When the raw listing's \<^verbatim>\<open>result\<close> is not \<^verbatim>\<open>"success"\<close> or it has no key
  \<^verbatim>\<open>files\<close>, the remote index builder fails with the API error that carries the
  listing's \<^verbatim>\<open>message\<close> (the listing itself when it has no message). Otherwise it builds
  the remote index: its keys are the \<^verbatim>\<open>path\<close> fields of the entries that are not
  directories, and each key holds the size and hash of the last such entry with that path.
\<close>

theorem pull_remote_index_contract:
  "(result raw \<noteq> Some ''success'' \<or> files raw = None \<longrightarrow>
      pull_remote_index raw =
        Inl (SystemExit (case message raw of Some m \<Rightarrow> Message m | None \<Rightarrow> Whole_Listing raw)))
   \<and> (result raw = Some ''success'' \<and> files raw = Some fl \<longrightarrow>
        (\<exists>idx. pull_remote_index raw = Inr idx
           \<and> dom idx = path ` {f \<in> set fl. \<not> is_directory f}
           \<and> (\<forall>p. idx p =
                 map_option (\<lambda>f. (size_field f, sha1_hash f))
                   (find (\<lambda>f. path f = p) (rev (filter (\<lambda>f. \<not> is_directory f) fl))))))"
  by (auto simp: pull_remote_index_def dom_remote_index_of remote_index_of_lookup
      split: option.splits)

theorem pull_remote_index_contract_witness:
  "result error_listing \<noteq> Some ''success''
   \<and> pull_remote_index error_listing = Inl (SystemExit (Message ''invalid auth''))
   \<and> result site_listing = Some ''success'' \<and> files site_listing = Some site_files
   \<and> (\<exists>idx. pull_remote_index site_listing = Inr idx
         \<and> dom idx = {''a.html'', ''c.png'', ''d.js''}
         \<and> idx ''img'' = None
         \<and> idx ''d.js'' = Some (7, hex_of_bytes (sha1 [0x64])))"
proof -
  have e1: "result error_listing \<noteq> Some ''success''" by (simp add: error_listing_def)
  from pull_remote_index_contract [of error_listing] e1
  have e2: "pull_remote_index error_listing = Inl (SystemExit (Message ''invalid auth''))"
    by (simp add: error_listing_def)
  have s1: "result site_listing = Some ''success''" and s2: "files site_listing = Some site_files"
    by (simp_all add: site_listing_def)
  from pull_remote_index_contract [of site_listing site_files] s1 s2
  obtain idx where idx: "pull_remote_index site_listing = Inr idx"
    "dom idx = path ` {f \<in> set site_files. \<not> is_directory f}"
    "\<forall>p. idx p = map_option (\<lambda>f. (size_field f, sha1_hash f))
                   (find (\<lambda>f. path f = p) (rev (filter (\<lambda>f. \<not> is_directory f) site_files)))"
    by blast
  have "dom idx = {''a.html'', ''c.png'', ''d.js''}"
    using idx(2) by (simp only: site_remote_paths)
  moreover have "idx ''img'' = None" "idx ''d.js'' = Some (7, hex_of_bytes (sha1 [0x64]))"
    by (simp_all add: idx(3) site_files_def)
  ultimately show ?thesis using e1 e2 s1 s2 idx(1) by blast
qed

section \<open>Batch sizes that are not positive\<close>

text \<open>
  Claim C7, as amended. For batch size zero the batcher fails with \<^verbatim>\<open>ValueError\<close>
  (raised by \<^verbatim>\<open>range\<close>) instead of producing batches. For a negative batch size it does
  not fail: it yields no batch, whatever the list. A configured batch size that
  \<^verbatim>\<open>int\<close> rejects ends \<^verbatim>\<open>main\<close> with the exception of \<^verbatim>\<open>int\<close> before anything is
  listed or uploaded, so it never reaches the batcher.
\<close>

theorem batch_size_not_positive:
  "chunked seq 0 = Inl ValueError
   \<and> (n < 0 \<longrightarrow> chunked seq n = Inr [])
   \<and> (batch_sz int_builtin configured = Inl e \<longrightarrow>
        main_sync int_builtin configured listitems upload hfd fs local skip_input confirmed w
          = Some (Inl e, w))"
  by (simp add: chunked_def py_range_def py_range_from_nonpos_step main_sync_def)

theorem batch_size_not_positive_witness:
  "chunked [1, 2, 3, 4, 5 :: nat] 0 = Inl ValueError
   \<and> (- 2 :: int) < 0
   \<and> chunked [1, 2, 3, 4, 5 :: nat] (- 2) = Inr []
   \<and> batch_sz only_hundred (Some ''2.5'') = Inl ValueError
   \<and> main_sync only_hundred (Some ''2.5'') no_listing no_upload True site_fs site_local True True w0
       = Some (Inl ValueError, w0)"
  using batch_size_not_positive
    [of "[1, 2, 3, 4, 5 :: nat]" "- 2" only_hundred "Some ''2.5''" ValueError
        no_listing no_upload True site_fs site_local True True w0]
  by (simp add: batch_sz_def only_hundred_def)

text \<open>
  The claim as it was stated fails: with batch size \<open>-1\<close> the batcher returns normally,
  with no batch.
\<close>

theorem chunked_negative_counterexample: "chunked [1, 2, 3 :: nat] (- 1) = Inr []"
  by (simp add: chunked_def py_range_def py_range_from.simps)

end
